theory Spec2Isabelle
  imports Complex_Main
begin

section \<open>The window search of \<open>exp_unc.py\<close>\<close>

text \<open>
  The embedding follows \<open>find_min_std_window\<close> (lines 14 to 104 of \<open>src/exp_unc.py\<close>).
  Floating-point numbers are abstracted to exact reals: a time stamp and a window size are
  reals, a channel cell is a real or missing (pandas reads an empty cell as NaN), and the
  three kinds of value that the running minimum and a standard deviation can take are kept
  apart in \<open>fval\<close>. Rounding is not modelled.
\<close>

subsection \<open>Values, errors and the data frame\<close>

datatype fval = Fin real | PInf | NaN

text \<open>Python's \<open>a < b\<close> on floats: every comparison with NaN is false.\<close>

fun flt :: "fval \<Rightarrow> fval \<Rightarrow> bool" where
  "flt (Fin a) (Fin b) = (a < b)"
| "flt (Fin a) PInf = True"
| "flt _ _ = False"

text \<open>
  The three \<open>ValueError\<close>s of the function, named as the specification names them, and the
  \<open>IndexError\<close> that \<open>.index[-1]\<close> raises on an empty selection.
\<close>

datatype error = UnknownChannel | InvalidRange | NoValidWindow | IndexError

text \<open>
  The data frame as \<open>read_file\<close> builds it: the time column \<open>X_Value\<close> and the other columns
  by name, under the default positional index. The time column is taken to hold no missing
  value.
\<close>

record dataframe =
  X_Value :: "real list"
  channels :: "string \<rightharpoonup> real option list"

definition len :: "dataframe \<Rightarrow> nat" where
  "len df = length (X_Value df)"

text \<open>\<open>df[column_name]\<close>, with \<open>None\<close> when \<open>column_name not in df.columns\<close>.\<close>

definition column :: "dataframe \<Rightarrow> string \<Rightarrow> real option list option" where
  "column df column_name =
     (if column_name = ''X_Value'' then Some (map Some (X_Value df))
      else channels df column_name)"

text \<open>Every column of a data frame has the length of the frame.\<close>

definition wf_df :: "dataframe \<Rightarrow> bool" where
  "wf_df df \<longleftrightarrow> (\<forall>name col. channels df name = Some col \<longrightarrow> length col = len df)"

subsection \<open>The pandas and numpy operations the search calls\<close>

text \<open>\<open>s.iloc[i:j]\<close> for \<open>0 \<le> i\<close>: a slice is clipped to the series, it never raises.\<close>

definition iloc :: "'a list \<Rightarrow> nat \<Rightarrow> nat \<Rightarrow> 'a list" where
  "iloc xs i j = take (j - i) (drop i xs)"

fun dropna :: "real option list \<Rightarrow> real list" where
  "dropna [] = []"
| "dropna (None # xs) = dropna xs"
| "dropna (Some v # xs) = v # dropna xs"

text \<open>
  \<open>Series.std()\<close> with its defaults \<open>skipna=True\<close> and \<open>ddof=1\<close>: the missing cells are
  dropped, fewer than two remaining values give NaN, otherwise the squared deviations
  from the mean are summed and divided by \<open>count - 1\<close>.
\<close>

definition nanvar :: "real list \<Rightarrow> real option" where
  "nanvar vs =
     (let count = length vs
      in if count \<le> 1 then None
         else let avg = sum_list vs / real count
              in Some (sum_list (map (\<lambda>v. (avg - v)\<^sup>2) vs) / real (count - 1)))"

definition std :: "real option list \<Rightarrow> fval" where
  "std xs = (case nanvar (dropna xs) of None \<Rightarrow> NaN | Some v \<Rightarrow> Fin (sqrt v))"

text \<open>
  \<open>df[df['X_Value'] <= end_time].index[-1]\<close>: the last row whose time is at most
  \<open>end_time\<close>; \<open>None\<close> stands for the \<open>IndexError\<close> of an empty selection.
\<close>

definition last_index_le :: "real list \<Rightarrow> real \<Rightarrow> nat option" where
  "last_index_le ts end_time =
     (case filter (\<lambda>j. ts ! j \<le> end_time) [0..<length ts] of
        [] \<Rightarrow> None
      | j # js \<Rightarrow> Some (last (j # js)))"

text \<open>\<open>np.arange(start, stop, 1)\<close>: \<open>ceil(stop - start)\<close> values \<open>start + k\<close>.\<close>

definition arange :: "real \<Rightarrow> real \<Rightarrow> real list" where
  "arange start stop = map (\<lambda>k. start + real k) [0..<nat \<lceil>stop - start\<rceil>]"

subsection \<open>The scan\<close>

record best =
  min_std :: fval
  best_start_idx :: nat
  best_end_idx :: nat
  best_window_size :: real

text \<open>A \<open>for\<close> loop whose body may raise: the first error ends the loop.\<close>

fun for_each :: "('s \<Rightarrow> 'a \<Rightarrow> error + 's) \<Rightarrow> 'a list \<Rightarrow> 's \<Rightarrow> error + 's" where
  "for_each body [] s = Inr s"
| "for_each body (x # xs) s =
     (case body s x of Inl e \<Rightarrow> Inl e | Inr s' \<Rightarrow> for_each body xs s')"

text \<open>The loop body of the fixed-size branch, lines 46 to 69.\<close>

definition fixed_step :: "dataframe \<Rightarrow> real option list \<Rightarrow> real \<Rightarrow> best \<Rightarrow> nat \<Rightarrow> error + best" where
  "fixed_step df col window_size b i =
     (let start_time = X_Value df ! i;
          end_time = start_time + window_size
      in case last_index_le (X_Value df) end_time of
           None \<Rightarrow> Inl IndexError
         | Some end_idx \<Rightarrow>
             if int end_idx - int i < 2 then Inr b
             else
               let window = iloc col i (end_idx + 1);
                   current_std = std window;
                   actual_window_size = X_Value df ! end_idx - start_time
               in if \<bar>actual_window_size - window_size\<bar> > window_size * (1 / 100) then Inr b
                  else if flt current_std (min_std b)
                  then Inr \<lparr>min_std = current_std, best_start_idx = i,
                            best_end_idx = end_idx, best_window_size = window_size\<rparr>
                  else Inr b)"

text \<open>The inner loop body of the variable-size branch, lines 76 to 99.\<close>

definition var_step :: "dataframe \<Rightarrow> real option list \<Rightarrow> real \<Rightarrow> best \<Rightarrow> nat \<Rightarrow> error + best" where
  "var_step df col window_size b i =
     (let start_time = X_Value df ! i;
          end_time = start_time + window_size
      in case last_index_le (X_Value df) end_time of
           None \<Rightarrow> Inl IndexError
         | Some end_idx \<Rightarrow>
             if int end_idx - int i < 2 then Inr b
             else
               let window = iloc col i (end_idx + 1);
                   current_std = std window;
                   actual_window_size = X_Value df ! end_idx - start_time
               in if \<bar>actual_window_size - window_size\<bar> > window_size * (1 / 100) then Inr b
                  else if flt current_std (min_std b)
                  then Inr \<lparr>min_std = current_std, best_start_idx = i,
                            best_end_idx = end_idx, best_window_size = window_size\<rparr>
                  else Inr b)"

text \<open>The loop of line 44 and the nested loops of lines 72 and 74.\<close>

definition fixed_scan :: "dataframe \<Rightarrow> real option list \<Rightarrow> real \<Rightarrow> best \<Rightarrow> error + best" where
  "fixed_scan df col window_size b = for_each (fixed_step df col window_size) [0..<len df] b"

definition var_scan :: "dataframe \<Rightarrow> real option list \<Rightarrow> real list \<Rightarrow> best \<Rightarrow> error + best" where
  "var_scan df col sizes b =
     for_each (\<lambda>b' window_size. for_each (var_step df col window_size) [0..<len df] b') sizes b"

text \<open>Lines 35 to 38.\<close>

definition init_best :: best where
  "init_best = \<lparr>min_std = PInf, best_start_idx = 0, best_end_idx = 0, best_window_size = 0\<rparr>"

text \<open>Lines 101 to 104.\<close>

definition finish :: "error + best \<Rightarrow> error + (nat \<times> nat \<times> fval \<times> real)" where
  "finish scanned =
     (case scanned of
        Inl e \<Rightarrow> Inl e
      | Inr b \<Rightarrow>
          if min_std b = PInf then Inl NoValidWindow
          else Inr (best_start_idx b, best_end_idx b + 1, min_std b, best_window_size b))"

text \<open>The window sizes the variable-size branch iterates over, line 72.\<close>

definition candidate_lengths :: "real \<Rightarrow> real \<Rightarrow> real list" where
  "candidate_lengths min_window_size max_window_size =
     arange min_window_size (max_window_size + 1)"

definition find_min_std_window ::
  "dataframe \<Rightarrow> string \<Rightarrow> real \<Rightarrow> real \<Rightarrow> error + (nat \<times> nat \<times> fval \<times> real)" where
  "find_min_std_window df column_name min_window_size max_window_size =
     (case column df column_name of
        None \<Rightarrow> Inl UnknownChannel
      | Some col \<Rightarrow>
          if min_window_size > max_window_size then Inl InvalidRange
          else if min_window_size = max_window_size
          then finish (fixed_scan df col min_window_size init_best)
          else finish (var_scan df col (candidate_lengths min_window_size max_window_size)
                         init_best))"

subsection \<open>Notions used to state the properties\<close>

text \<open>
  A window from row \<open>i\<close> to row \<open>end_idx\<close> (inclusive) of target size \<open>window_size\<close> passes
  the two checks of the loop body: it is the one the boundary lookup finds, it is not
  skipped for having \<open>end_idx - i < 2\<close>, and it is not skipped by the 1% check.
\<close>

definition valid_window :: "dataframe \<Rightarrow> real \<Rightarrow> nat \<Rightarrow> nat \<Rightarrow> bool" where
  "valid_window df window_size i end_idx \<longleftrightarrow>
     last_index_le (X_Value df) (X_Value df ! i + window_size) = Some end_idx \<and>
     \<not> int end_idx - int i < 2 \<and>
     \<not> \<bar>X_Value df ! end_idx - X_Value df ! i - window_size\<bar> > window_size * (1 / 100)"

text \<open>
  One loop over a list of (window size, start index) pairs: the form both branches are
  brought to, in scan order.
\<close>

definition scan_keys :: "dataframe \<Rightarrow> real option list \<Rightarrow> (real \<times> nat) list \<Rightarrow> best \<Rightarrow> error + best" where
  "scan_keys df col ks b = for_each (\<lambda>b' (w, i). fixed_step df col w b' i) ks b"

text \<open>The standard deviation the loop body computes for the window from \<open>i\<close> to \<open>end_idx\<close>.\<close>

definition window_std :: "real option list \<Rightarrow> nat \<Rightarrow> nat \<Rightarrow> fval" where
  "window_std col i end_idx = std (iloc col i (end_idx + 1))"

definition no_better :: "dataframe \<Rightarrow> real option list \<Rightarrow> (real \<times> nat) list \<Rightarrow> fval \<Rightarrow> bool" where
  "no_better df col ks m \<longleftrightarrow>
     (\<forall>(w, i) \<in> set ks. \<forall>e. valid_window df w i e \<longrightarrow> \<not> flt (window_std col i e) m)"

definition all_worse :: "dataframe \<Rightarrow> real option list \<Rightarrow> (real \<times> nat) list \<Rightarrow> fval \<Rightarrow> bool" where
  "all_worse df col ks m \<longleftrightarrow>
     (\<forall>(w, i) \<in> set ks. \<forall>e. valid_window df w i e \<longrightarrow>
        \<not> flt (window_std col i e) m \<and> window_std col i e \<noteq> m)"

text \<open>
  The window sizes a call scans: the single size of the fixed branch, or the sizes of the
  variable branch.
\<close>

definition search_sizes :: "real \<Rightarrow> real \<Rightarrow> real list" where
  "search_sizes min_window_size max_window_size =
     (if min_window_size = max_window_size then [min_window_size]
      else candidate_lengths min_window_size max_window_size)"


text \<open>
  The sample standard deviation in the specification's words: the square root of the
  unbiased variance estimator, the squared deviations from the mean summed and divided by
  \<open>N - 1\<close>, undefined for fewer than two samples.
\<close>

definition sample_mean :: "real list \<Rightarrow> real" where
  "sample_mean xs = (\<Sum>k<length xs. xs ! k) / real (length xs)"

definition sample_std :: "real list \<Rightarrow> real option" where
  "sample_std xs =
     (if length xs < 2 then None
      else Some (sqrt ((\<Sum>k<length xs. (xs ! k - sample_mean xs)\<^sup>2) / (real (length xs) - 1))))"

text \<open>The non-missing cells of a column over the closed index range from \<open>i\<close> to \<open>j\<close>.\<close>

definition closed_range_values :: "real option list \<Rightarrow> nat \<Rightarrow> nat \<Rightarrow> real list" where
  "closed_range_values col i j = List.map_filter (\<lambda>k. col ! k) [i..<Suc j]"

text \<open>An undefined standard deviation is NaN.\<close>

definition fval_of :: "real option \<Rightarrow> fval" where
  "fval_of r = (case r of None \<Rightarrow> NaN | Some v \<Rightarrow> Fin v)"

text \<open>A channel with a single recorded cell: the other two cells of the file are empty.\<close>

definition gap_df :: dataframe where
  "gap_df = \<lparr>X_Value = [0, 1, 2], channels = [''v'' \<mapsto> [Some 1, None, None]]\<rparr>"

text \<open>Three samples 1.5 seconds apart, for a search between 1 and 2.5 seconds.\<close>

definition overshoot_df :: dataframe where
  "overshoot_df = \<lparr>X_Value = [0, 3 / 2, 3], channels = [''v'' \<mapsto> [Some 5, Some 5, Some 5]]\<rparr>"

text \<open>A channel whose middle cell is empty in the file.\<close>

definition hole_df :: dataframe where
  "hole_df = \<lparr>X_Value = [0, 1, 2], channels = [''v'' \<mapsto> [Some 1, None, Some 3]]\<rparr>"

text \<open>The example of the specification: two plateaus sampled once per second.\<close>

definition plateau_df :: dataframe where
  "plateau_df =
     \<lparr>X_Value = [0, 1, 2, 3, 4, 5],
      channels = [''v'' \<mapsto> [Some 10, Some 10, Some 10, Some 20, Some 20, Some 20]]\<rparr>"

section \<open>Properties\<close>

subsection \<open>The two branches as one scan\<close>

lemma var_step_eq: "var_step = fixed_step"
  by (intro ext) (simp add: var_step_def fixed_step_def)

lemma fixed_step_cases:
  "fixed_step df col w b i =
     (case last_index_le (X_Value df) (X_Value df ! i + w) of
        None \<Rightarrow> Inl IndexError
      | Some e \<Rightarrow>
          Inr (if valid_window df w i e \<and> flt (std (iloc col i (e + 1))) (min_std b)
               then \<lparr>min_std = std (iloc col i (e + 1)), best_start_idx = i,
                     best_end_idx = e, best_window_size = w\<rparr>
               else b))"
  by (simp add: fixed_step_def valid_window_def Let_def split: option.splits)

lemma for_each_append:
  "for_each f (xs @ ys) s =
     (case for_each f xs s of Inl e \<Rightarrow> Inl e | Inr s' \<Rightarrow> for_each f ys s')"
  by (induction xs arbitrary: s) (simp_all split: sum.splits)

lemma for_each_map: "for_each f (map g xs) s = for_each (\<lambda>s' x. f s' (g x)) xs s"
  by (induction xs arbitrary: s) (simp_all split: sum.splits)

lemma scan_keys_Nil: "scan_keys df col [] b = Inr b"
  by (simp add: scan_keys_def)

lemma scan_keys_Cons:
  "scan_keys df col ((w, i) # ks) b =
     (case fixed_step df col w b i of Inl e \<Rightarrow> Inl e | Inr b' \<Rightarrow> scan_keys df col ks b')"
  by (simp add: scan_keys_def split: sum.splits)

lemma scan_keys_append:
  "scan_keys df col (ks @ ks') b =
     (case scan_keys df col ks b of Inl e \<Rightarrow> Inl e | Inr b' \<Rightarrow> scan_keys df col ks' b')"
  by (simp add: scan_keys_def for_each_append split: sum.splits)

lemma fixed_scan_keys:
  "fixed_scan df col w b = scan_keys df col (map (Pair w) [0..<len df]) b"
  by (simp add: fixed_scan_def scan_keys_def for_each_map)

lemma var_scan_keys:
  "var_scan df col sizes b = scan_keys df col (List.product sizes [0..<len df]) b"
proof (induction sizes arbitrary: b)
  case Nil
  then show ?case by (simp add: var_scan_def scan_keys_def)
next
  case (Cons w sizes)
  have inner: "for_each (var_step df col w) [0..<len df] b
               = scan_keys df col (map (Pair w) [0..<len df]) b"
    by (simp add: var_step_eq scan_keys_def for_each_map)
  show ?case
    using Cons.IH
    by (simp add: var_scan_def scan_keys_append inner [symmetric] split: sum.splits)
qed

lemma flt_trans: "flt a b \<Longrightarrow> flt b c \<Longrightarrow> flt a c"
  by (cases a; cases b; cases c) simp_all

lemma flt_asym: "flt a b \<Longrightarrow> \<not> flt b a \<and> b \<noteq> a"
  by (cases a; cases b) simp_all

lemma flt_not_better: "flt s m \<Longrightarrow> \<not> flt s' m \<Longrightarrow> \<not> flt s' s \<and> s' \<noteq> s"
  by (cases s; cases m; cases s') simp_all


lemma fixed_step_Inr:
  assumes "fixed_step df col w b i = Inr b1"
  obtains e0 where "last_index_le (X_Value df) (X_Value df ! i + w) = Some e0"
    and "b1 = (if valid_window df w i e0 \<and> flt (window_std col i e0) (min_std b)
               then \<lparr>min_std = window_std col i e0, best_start_idx = i,
                     best_end_idx = e0, best_window_size = w\<rparr>
               else b)"
  using assms unfolding fixed_step_cases window_std_def
  by (cases "last_index_le (X_Value df) (X_Value df ! i + w)") auto

lemma scan_keys_result:
  assumes "scan_keys df col ks b = Inr b'"
  shows "(b' = b \<and> no_better df col ks (min_std b)) \<or>
         (\<exists>pre w i e post.
            ks = pre @ (w, i) # post \<and> valid_window df w i e \<and>
            flt (window_std col i e) (min_std b) \<and>
            b' = \<lparr>min_std = window_std col i e, best_start_idx = i,
                  best_end_idx = e, best_window_size = w\<rparr> \<and>
            all_worse df col pre (window_std col i e) \<and>
            no_better df col post (window_std col i e))"
  using assms
proof (induction ks arbitrary: b)
  case Nil
  then show ?case by (simp add: scan_keys_Nil no_better_def)
next
  case (Cons k ks)
  obtain w i where k: "k = (w, i)" by (cases k)
  from Cons.prems obtain b1 where
    step: "fixed_step df col w b i = Inr b1" and rest: "scan_keys df col ks b1 = Inr b'"
    by (auto simp: k scan_keys_Cons split: sum.splits)
  from step obtain e0 where
    e0: "last_index_le (X_Value df) (X_Value df ! i + w) = Some e0" and
    b1: "b1 = (if valid_window df w i e0 \<and> flt (window_std col i e0) (min_std b)
               then \<lparr>min_std = window_std col i e0, best_start_idx = i,
                     best_end_idx = e0, best_window_size = w\<rparr>
               else b)"
    by (rule fixed_step_Inr)
  have only: "e = e0" if "valid_window df w i e" for e
    using that e0 by (simp add: valid_window_def)
  note IH = Cons.IH [OF rest]
  show ?case
  proof (cases "valid_window df w i e0 \<and> flt (window_std col i e0) (min_std b)")
    case True
    then have b1': "b1 = \<lparr>min_std = window_std col i e0, best_start_idx = i,
                     best_end_idx = e0, best_window_size = w\<rparr>"
      using b1 by simp
    then have m1: "min_std b1 = window_std col i e0" by simp
    from IH show ?thesis
    proof
      assume "b' = b1 \<and> no_better df col ks (min_std b1)"
      then have "k # ks = [] @ (w, i) # ks \<and> valid_window df w i e0 \<and>
            flt (window_std col i e0) (min_std b) \<and>
            b' = \<lparr>min_std = window_std col i e0, best_start_idx = i,
                  best_end_idx = e0, best_window_size = w\<rparr> \<and>
            all_worse df col [] (window_std col i e0) \<and>
            no_better df col ks (window_std col i e0)"
        using True b1' m1 by (simp add: k all_worse_def)
      then show ?thesis by blast
    next
      assume "\<exists>pre w i e post.
            ks = pre @ (w, i) # post \<and> valid_window df w i e \<and>
            flt (window_std col i e) (min_std b1) \<and>
            b' = \<lparr>min_std = window_std col i e, best_start_idx = i,
                  best_end_idx = e, best_window_size = w\<rparr> \<and>
            all_worse df col pre (window_std col i e) \<and>
            no_better df col post (window_std col i e)"
      then obtain pre w' i' e' post where
        split: "ks = pre @ (w', i') # post" and v: "valid_window df w' i' e'" and
        less: "flt (window_std col i' e') (min_std b1)" and
        res: "b' = \<lparr>min_std = window_std col i' e', best_start_idx = i',
                  best_end_idx = e', best_window_size = w'\<rparr>" and
        pre: "all_worse df col pre (window_std col i' e')" and
        post: "no_better df col post (window_std col i' e')"
        by blast
      from less m1 have less0: "flt (window_std col i' e') (window_std col i e0)" by simp
      with True have less': "flt (window_std col i' e') (min_std b)"
        by (blast intro: flt_trans)
      have "all_worse df col ((w, i) # pre) (window_std col i' e')"
        using pre flt_asym [OF less0] only by (auto simp: all_worse_def)
      moreover have "k # ks = ((w, i) # pre) @ (w', i') # post"
        using split k by simp
      ultimately show ?thesis using v less' res post by blast
    qed
  next
    case False
    then have b1': "b1 = b" using b1 by auto
    have notless: "\<not> flt (window_std col i e) (min_std b)" if "valid_window df w i e" for e
      using False that only [OF that] by auto
    from IH show ?thesis
    proof
      assume "b' = b1 \<and> no_better df col ks (min_std b1)"
      then have "b' = b \<and> no_better df col (k # ks) (min_std b)"
        using b1' notless by (auto simp: no_better_def k)
      then show ?thesis by blast
    next
      assume "\<exists>pre w i e post.
            ks = pre @ (w, i) # post \<and> valid_window df w i e \<and>
            flt (window_std col i e) (min_std b1) \<and>
            b' = \<lparr>min_std = window_std col i e, best_start_idx = i,
                  best_end_idx = e, best_window_size = w\<rparr> \<and>
            all_worse df col pre (window_std col i e) \<and>
            no_better df col post (window_std col i e)"
      then obtain pre w' i' e' post where
        split: "ks = pre @ (w', i') # post" and v: "valid_window df w' i' e'" and
        less: "flt (window_std col i' e') (min_std b)" and
        res: "b' = \<lparr>min_std = window_std col i' e', best_start_idx = i',
                  best_end_idx = e', best_window_size = w'\<rparr>" and
        pre: "all_worse df col pre (window_std col i' e')" and
        post: "no_better df col post (window_std col i' e')"
        unfolding b1' by blast
      have "all_worse df col ((w, i) # pre) (window_std col i' e')"
        using pre flt_not_better [OF less notless] by (auto simp: all_worse_def)
      moreover have "k # ks = ((w, i) # pre) @ (w', i') # post"
        using split k by simp
      ultimately show ?thesis using v less res post by blast
    qed
  qed
qed

subsection \<open>What a returned window is\<close>

lemma find_as_scan:
  assumes "column df name = Some col" and "mn \<le> mx"
  shows "find_min_std_window df name mn mx =
           finish (scan_keys df col (List.product (search_sizes mn mx) [0..<len df]) init_best)"
  using assms
  by (simp add: find_min_std_window_def search_sizes_def fixed_scan_keys var_scan_keys)

lemma find_Inr_column:
  assumes "find_min_std_window df name mn mx = Inr r"
  obtains col where "column df name = Some col" and "mn \<le> mx"
  using assms by (auto simp: find_min_std_window_def split: option.splits if_splits)

lemma finish_Inr:
  assumes "finish scanned = Inr (s, e1, sd, L)"
  obtains b where "scanned = Inr b" and "min_std b \<noteq> PInf" and "s = best_start_idx b"
    and "e1 = best_end_idx b + 1" and "sd = min_std b" and "L = best_window_size b"
  using assms by (auto simp: finish_def split: sum.splits if_splits)

lemma result_window:
  assumes res: "find_min_std_window df name mn mx = Inr (s, e1, sd, L)"
    and col: "column df name = Some col"
  obtains e pre post where "e1 = e + 1" and "valid_window df L s e"
    and "sd = window_std col s e" and "flt sd PInf"
    and "List.product (search_sizes mn mx) [0..<len df] = pre @ (L, s) # post"
    and "all_worse df col pre sd" and "no_better df col post sd"
proof -
  from res col have le: "mn \<le> mx"
    by (auto simp: find_min_std_window_def split: if_splits)
  let ?ks = "List.product (search_sizes mn mx) [0..<len df]"
  from res have "finish (scan_keys df col ?ks init_best) = Inr (s, e1, sd, L)"
    by (simp add: find_as_scan [OF col le])
  then obtain b where b: "scan_keys df col ?ks init_best = Inr b"
    and ne: "min_std b \<noteq> PInf" and flds: "s = best_start_idx b" "e1 = best_end_idx b + 1"
      "sd = min_std b" "L = best_window_size b"
    by (rule finish_Inr)
  from scan_keys_result [OF b] ne
  obtain pre w i e post where
    "?ks = pre @ (w, i) # post" "valid_window df w i e"
    "flt (window_std col i e) (min_std init_best)"
    "b = \<lparr>min_std = window_std col i e, best_start_idx = i,
          best_end_idx = e, best_window_size = w\<rparr>"
    "all_worse df col pre (window_std col i e)"
    "no_better df col post (window_std col i e)"
    by (auto simp: init_best_def)
  then show thesis
    using flds that [of e pre post] by (simp add: init_best_def)
qed

lemma nanvar_nonneg:
  assumes "nanvar vs = Some v"
  shows "0 \<le> v"
proof -
  let ?avg = "sum_list vs / real (length vs)"
  from assms have v: "v = sum_list (map (\<lambda>x. (?avg - x)\<^sup>2) vs) / real (length vs - 1)"
    by (simp add: nanvar_def Let_def split: if_splits)
  have "0 \<le> sum_list (map (\<lambda>x. (?avg - x)\<^sup>2) vs)"
    by (rule sum_list_nonneg) auto
  then show ?thesis unfolding v by (rule divide_nonneg_nonneg) simp
qed

lemma std_Fin_nonneg: "std xs = Fin v \<Longrightarrow> 0 \<le> v"
  by (auto simp: std_def split: option.splits dest: nanvar_nonneg)

lemma std_Fin_count: "std xs = Fin v \<Longrightarrow> 2 \<le> length (dropna xs)"
  by (auto simp: std_def nanvar_def Let_def split: option.splits if_splits)

lemma std_not_PInf: "std xs \<noteq> PInf"
  by (simp add: std_def split: option.splits)

lemma flt_PInf: "flt x PInf \<longleftrightarrow> (\<exists>v. x = Fin v)"
  by (cases x) simp_all

lemma sorted_le_last: "sorted xs \<Longrightarrow> x \<in> set xs \<Longrightarrow> x \<le> last xs" for x :: nat
  by (induction xs) auto

lemma last_index_le_Some:
  assumes "last_index_le ts t = Some e"
  shows "e < length ts \<and> ts ! e \<le> t \<and> (\<forall>j < length ts. ts ! j \<le> t \<longrightarrow> j \<le> e)"
proof -
  let ?js = "filter (\<lambda>j. ts ! j \<le> t) [0..<length ts]"
  from assms have ne: "?js \<noteq> []" and e: "e = last ?js"
    by (auto simp: last_index_le_def split: list.splits)
  from ne have "last ?js \<in> set ?js" by (rule last_in_set)
  then have 1: "e < length ts \<and> ts ! e \<le> t" using e by simp
  have srt: "sorted ?js" by (simp add: sorted_wrt_filter)
  have "j \<le> e" if "j < length ts" "ts ! j \<le> t" for j
  proof -
    from that have "j \<in> set ?js" by simp
    with srt show ?thesis unfolding e by (rule sorted_le_last)
  qed
  with 1 show ?thesis by simp
qed

lemma last_index_le_None: "last_index_le ts t = None \<longleftrightarrow> (\<forall>j < length ts. \<not> ts ! j \<le> t)"
proof -
  have "last_index_le ts t = None \<longleftrightarrow> filter (\<lambda>j. ts ! j \<le> t) [0..<length ts] = []"
    by (simp add: last_index_le_def split: list.splits)
  also have "\<dots> \<longleftrightarrow> (\<forall>j < length ts. \<not> ts ! j \<le> t)"
    by (auto simp: filter_empty_conv)
  finally show ?thesis .
qed

lemma nat_less_ceiling: "k < nat \<lceil>x\<rceil> \<longleftrightarrow> real k < x" for x :: real
  by (simp add: zless_nat_eq_int_zless less_ceiling_iff)

lemma set_arange: "set (arange a b) = {a + real k |k. a + real k < b}"
  by (auto simp: arange_def nat_less_ceiling)



lemma search_sizes_ge: "w \<in> set (search_sizes mn mx) \<Longrightarrow> mn \<le> w"
  by (auto simp: search_sizes_def candidate_lengths_def set_arange split: if_splits)



lemma plateau_column:
  "column plateau_df ''v'' = Some [Some 10, Some 10, Some 10, Some 20, Some 20, Some 20]"
  by (simp add: column_def plateau_df_def)

lemma std_Fin_iff: "(\<exists>v. std xs = Fin v) \<longleftrightarrow> 2 \<le> length (dropna xs)"
  by (auto simp: std_def nanvar_def Let_def split: option.splits if_splits)

lemma dropna_map_Some: "dropna (map Some vs) = vs"
  by (induction vs) simp_all

lemma std_skips_missing: "std xs = std (map Some (dropna xs))"
  by (simp add: std_def dropna_map_Some)

lemma scan_keys_error: "scan_keys df col ks b = Inl e \<Longrightarrow> e = IndexError"
proof (induction ks arbitrary: b)
  case Nil
  then show ?case by (simp add: scan_keys_Nil)
next
  case (Cons k ks)
  obtain w i where k: "k = (w, i)" by (cases k)
  from Cons show ?case
    by (auto simp: k scan_keys_Cons fixed_step_cases split: sum.splits option.splits)
qed

lemma scan_keys_total:
  assumes "\<forall>(w, i) \<in> set ks. last_index_le (X_Value df) (X_Value df ! i + w) \<noteq> None"
  shows "\<exists>b'. scan_keys df col ks b = Inr b'"
  using assms
proof (induction ks arbitrary: b)
  case Nil
  then show ?case by (simp add: scan_keys_Nil)
next
  case (Cons k ks)
  obtain w i where k: "k = (w, i)" by (cases k)
  from Cons.prems obtain e where "last_index_le (X_Value df) (X_Value df ! i + w) = Some e"
    by (auto simp: k)
  then obtain b1 where "fixed_step df col w b i = Inr b1"
    by (simp add: fixed_step_cases)
  moreover from Cons have "\<exists>b'. scan_keys df col ks b1 = Inr b'" by simp
  ultimately show ?case by (simp add: k scan_keys_Cons)
qed

lemma lookup_succeeds:
  assumes "i < len df" and "0 \<le> w"
  shows "last_index_le (X_Value df) (X_Value df ! i + w) \<noteq> None"
  using assms by (auto simp: last_index_le_None len_def)

lemma plateau_run: "find_min_std_window plateau_df ''v'' 2 2 = Inr (0, 3, Fin 0, 2)"
  by (simp add: find_min_std_window_def column_def plateau_df_def fixed_scan_def len_def
      upt_rec fixed_step_def last_index_le_def iloc_def std_def nanvar_def init_best_def
      finish_def Let_def power2_eq_square)

subsection \<open>When the scan finds nothing\<close>

lemma std_NaN_iff: "std xs = NaN \<longleftrightarrow> length (dropna xs) < 2"
  by (auto simp: std_def nanvar_def Let_def split: option.splits if_splits)

lemma valid_window_bound: "valid_window df w i e \<Longrightarrow> e < len df"
  by (auto simp: valid_window_def len_def dest: last_index_le_Some)

lemma scan_succeeds:
  assumes "0 \<le> mn"
  shows "\<exists>b. scan_keys df col (List.product (search_sizes mn mx) [0..<len df]) init_best = Inr b"
proof (rule scan_keys_total)
  have "last_index_le (X_Value df) (X_Value df ! i + w) \<noteq> None"
    if "w \<in> set (search_sizes mn mx)" "i < len df" for w i
  proof (rule lookup_succeeds)
    show "i < len df" by (rule that)
    from that(1) have "mn \<le> w" by (rule search_sizes_ge)
    with assms show "0 \<le> w" by simp
  qed
  then show "\<forall>(w, i) \<in> set (List.product (search_sizes mn mx) [0..<len df]).
          last_index_le (X_Value df) (X_Value df ! i + w) \<noteq> None"
    by auto
qed

subsection \<open>The standard deviation of a window\<close>

lemma sum_list_nth: "sum_list (map g vs) = (\<Sum>k<length vs. g (vs ! k))" for g :: "real \<Rightarrow> real"
proof -
  have "sum_list (map g vs) = (\<Sum>k = 0..<length vs. map g vs ! k)"
    using sum_list_sum_nth [of "map g vs"] by simp
  also have "\<dots> = (\<Sum>k = 0..<length vs. g (vs ! k))"
    by (rule sum.cong) simp_all
  finally show ?thesis by (simp add: atLeast0LessThan)
qed

lemma nanvar_eq_sample_std: "(case nanvar vs of None \<Rightarrow> NaN | Some v \<Rightarrow> Fin (sqrt v)) = fval_of (sample_std vs)"
proof (cases "length vs < 2")
  case True
  then show ?thesis by (simp add: nanvar_def sample_std_def fval_of_def Let_def)
next
  case False
  then have n: "real (length vs - 1) = real (length vs) - 1" by (simp add: of_nat_diff)
  have avg: "sum_list vs / real (length vs) = sample_mean vs"
    using sum_list_nth [of "\<lambda>x. x" vs] by (simp add: sample_mean_def)
  have "sum_list (map (\<lambda>v. (sample_mean vs - v)\<^sup>2) vs)
          = (\<Sum>k<length vs. (vs ! k - sample_mean vs)\<^sup>2)"
    by (simp add: sum_list_nth power2_commute)
  with False n avg show ?thesis
    by (simp add: nanvar_def sample_std_def fval_of_def Let_def)
qed

lemma std_eq_sample_std: "std xs = fval_of (sample_std (dropna xs))"
  by (simp add: std_def nanvar_eq_sample_std)

lemma iloc_nth: "j \<le> length col \<Longrightarrow> iloc col i j = map (\<lambda>k. col ! k) [i..<j]"
  by (rule nth_equalityI) (auto simp: iloc_def)

lemma dropna_map: "dropna (map f ks) = List.map_filter f ks"
  by (induction ks) (auto simp: map_filter_simps split: option.splits)

lemma window_std_eq_sample_std:
  assumes "e < length col"
  shows "window_std col i e = fval_of (sample_std (closed_range_values col i e))"
  using assms
  by (simp add: window_std_def std_eq_sample_std iloc_nth dropna_map closed_range_values_def)

lemma column_length: "wf_df df \<Longrightarrow> column df name = Some col \<Longrightarrow> length col = len df"
  by (auto simp: wf_df_def column_def len_def split: if_splits)

lemma plateau_wf: "wf_df plateau_df"
  by (simp add: wf_df_def plateau_df_def len_def)

lemma plateau_first_step:
  "fixed_step plateau_df [Some 10, Some 10, Some 10, Some 20, Some 20, Some 20] 2 init_best 0 =
     Inr \<lparr>min_std = Fin 0, best_start_idx = 0, best_end_idx = 2, best_window_size = 2\<rparr>"
  by (simp add: plateau_df_def upt_rec fixed_step_def last_index_le_def iloc_def std_def
      nanvar_def init_best_def Let_def)

subsection \<open>The window sizes of the variable branch\<close>

lemma set_candidate_lengths:
  "set (candidate_lengths mn mx) = {mn + real k |k. mn + real k < mx + 1}"
  by (simp add: candidate_lengths_def set_arange)

lemma int_candidate_lengths:
  assumes "mn \<in> \<int>" and "mx \<in> \<int>"
  shows "set (candidate_lengths mn mx) = {L. L \<in> \<int> \<and> mn \<le> L \<and> L \<le> mx}"
proof -
  from assms obtain a b where a: "mn = of_int a" and b: "mx = of_int b"
    by (auto elim!: Ints_cases)
  show ?thesis
  proof (intro set_eqI iffI)
    fix L assume "L \<in> set (candidate_lengths mn mx)"
    then obtain k :: nat where L: "L = mn + real k" and lt: "mn + real k < mx + 1"
      by (auto simp: set_candidate_lengths)
    have L': "L = of_int (a + int k)" by (simp add: L a)
    from lt have "(of_int (a + int k) :: real) < of_int (b + 1)" by (simp add: a b)
    then have "a + int k < b + 1" by (simp only: of_int_less_iff)
    then have "(of_int (a + int k) :: real) \<le> of_int b" by (simp only: of_int_le_iff)
    then show "L \<in> {L. L \<in> \<int> \<and> mn \<le> L \<and> L \<le> mx}"
      unfolding L' by (simp add: a b)
  next
    fix L assume "L \<in> {L. L \<in> \<int> \<and> mn \<le> L \<and> L \<le> mx}"
    then have "L \<in> \<int>" and lo: "mn \<le> L" and hi: "L \<le> mx" by simp_all
    then obtain c where c: "L = of_int c" by (auto elim!: Ints_cases)
    from lo have ac: "a \<le> c" by (simp add: a c)
    from hi have cb: "c \<le> b" by (simp add: b c)
    have "L = mn + real (nat (c - a))" using ac by (simp add: a c)
    moreover have "mn + real (nat (c - a)) < mx + 1" using ac cb by (simp add: a b)
    ultimately show "L \<in> set (candidate_lengths mn mx)"
      by (auto simp: set_candidate_lengths)
  qed
qed

text \<open>
  A returned window spans its window size up to 1%, and that size is at least the minimum
  and below the maximum plus one.
\<close>

lemma result_tolerance_and_size:
  assumes "find_min_std_window df column_name min_window_size max_window_size =
             Inr (start_index, end_index, std_dev, window_size)"
  shows "\<bar>X_Value df ! (end_index - 1) - X_Value df ! start_index - window_size\<bar>
           \<le> window_size * (1 / 100) \<and>
         min_window_size \<le> window_size \<and> window_size < max_window_size + 1"
proof -
  from assms obtain col where col: "column df column_name = Some col"
    and le: "min_window_size \<le> max_window_size"
    by (rule find_Inr_column)
  from assms col obtain e pre post where e: "end_index = e + 1"
    and valid: "valid_window df window_size start_index e"
    and split: "List.product (search_sizes min_window_size max_window_size) [0..<len df] =
                  pre @ (window_size, start_index) # post"
    by (rule result_window)
  have "(window_size, start_index) \<in>
          set (List.product (search_sizes min_window_size max_window_size) [0..<len df])"
    unfolding split by simp
  then have "window_size \<in> set (search_sizes min_window_size max_window_size)" by simp
  then have "min_window_size \<le> window_size \<and> window_size < max_window_size + 1"
    by (auto simp: search_sizes_def candidate_lengths_def set_arange split: if_splits)
  with valid e show ?thesis by (simp add: valid_window_def)
qed

lemma overshoot_run: "find_min_std_window overshoot_df ''v'' 1 (5 / 2) = Inr (0, 3, Fin 0, 3)"
  by (simp add: find_min_std_window_def column_def overshoot_df_def var_scan_def len_def
      candidate_lengths_def arange_def
      upt_rec var_step_def last_index_le_def iloc_def std_def nanvar_def init_best_def
      finish_def Let_def)

subsection \<open>Windows with missing cells\<close>

lemma hole_column: "column hole_df ''v'' = Some [Some 1, None, Some 3]"
  by (simp add: column_def hole_df_def)

lemma hole_run: "find_min_std_window hole_df ''v'' 2 2 = Inr (0, 3, Fin (sqrt 2), 2)"
  by (simp add: find_min_std_window_def column_def hole_df_def fixed_scan_def len_def
      upt_rec fixed_step_def last_index_le_def iloc_def std_def nanvar_def init_best_def
      finish_def Let_def power2_eq_square)

lemma hole_lookup: "last_index_le (X_Value hole_df) (X_Value hole_df ! 0 + 2) = Some 2"
  by (simp add: hole_df_def last_index_le_def upt_rec)

lemma hole_valid: "valid_window hole_df 2 0 2"
  by (simp add: valid_window_def hole_df_def last_index_le_def upt_rec)

lemma gap_lookup: "last_index_le (X_Value gap_df) (X_Value gap_df ! 0 + 2) = Some 2"
  by (simp add: gap_df_def last_index_le_def upt_rec)

lemma gap_count: "length (dropna (iloc [Some 1, None, None] 0 (2 + 1))) < 2"
  by (simp add: iloc_def)

lemma step_by_sample_std:
  assumes "last_index_le (X_Value df) (X_Value df ! i + w) = Some e"
  shows "fixed_step df col w b i =
           Inr (if valid_window df w i e \<and>
                   flt (fval_of (sample_std (dropna (iloc col i (e + 1))))) (min_std b)
                then \<lparr>min_std = fval_of (sample_std (dropna (iloc col i (e + 1)))),
                      best_start_idx = i, best_end_idx = e, best_window_size = w\<rparr>
                else b)"
  using assms by (simp add: fixed_step_cases std_eq_sample_std)

lemma fval_of_sample_std_NaN: "length vs < 2 \<Longrightarrow> fval_of (sample_std vs) = NaN"
  by (simp add: sample_std_def fval_of_def)

subsection \<open>The claims\<close>

text \<open>
  C7: the two checks come in the order of lines 29 and 32. The call fails with
  UnknownChannel whenever the channel is not a column of the frame; once the channel is a
  column, it fails with InvalidRange whenever \<open>min_length > max_length\<close>. Both hold for
  every frame, whatever its rows are: the result is fixed before any window is looked at.
\<close>

theorem validation_errors:
  "(column df column_name = None \<longrightarrow>
      find_min_std_window df column_name min_window_size max_window_size = Inl UnknownChannel) \<and>
   (column df column_name \<noteq> None \<and> min_window_size > max_window_size \<longrightarrow>
      find_min_std_window df column_name min_window_size max_window_size = Inl InvalidRange)"
  by (auto simp: find_min_std_window_def)

theorem validation_errors_witness:
  "column plateau_df ''p'' = None \<and>
   find_min_std_window plateau_df ''p'' 1 2 = Inl UnknownChannel \<and>
   column plateau_df ''v'' \<noteq> None \<and> (10::real) > 5 \<and>
   find_min_std_window plateau_df ''v'' 10 5 = Inl InvalidRange"
  using validation_errors [of plateau_df "''p''" 1 2]
    validation_errors [of plateau_df "''v''" 10 5]
  by (simp add: column_def plateau_df_def)

text \<open>
  C8: on the series with times 0 to 5 and the channel 10, 10, 10, 20, 20, 20, a fixed window
  of 2 seconds gives start index 0, exclusive end index 3 and standard deviation 0.
\<close>

theorem plateau_example:
  "find_min_std_window
     \<lparr>X_Value = [0, 1, 2, 3, 4, 5],
      channels = [''v'' \<mapsto> [Some 10, Some 10, Some 10, Some 20, Some 20, Some 20]]\<rparr>
     ''v'' 2 2 = Inr (0, 3, Fin 0, 2)"
  by (simp add: find_min_std_window_def column_def fixed_scan_def len_def
      upt_rec fixed_step_def last_index_le_def iloc_def std_def nanvar_def init_best_def
      finish_def Let_def power2_eq_square)

text \<open>
  C9: the fixed-size branch computes what the variable-size scan computes when its list of
  window sizes is the single size, from any running best, and so the two give the same
  final result.
\<close>

theorem fixed_branch_is_single_size_scan:
  "fixed_scan df col window_size b = var_scan df col [window_size] b \<and>
   finish (fixed_scan df col window_size init_best) =
     finish (var_scan df col [window_size] init_best)"
  by (simp add: fixed_scan_keys var_scan_keys)

text \<open>
  C4: a returned window has \<open>start_index < end_index\<close>, at least three rows
  (\<open>end_index\<close> exclusive) and a standard deviation that is a number and not negative.
\<close>

theorem result_indices_and_std:
  assumes "find_min_std_window df column_name min_window_size max_window_size =
             Inr (start_index, end_index, std_dev, window_size)"
  shows "start_index < end_index \<and> end_index - start_index \<ge> 3 \<and>
         (\<exists>v. std_dev = Fin v \<and> 0 \<le> v)"
proof -
  from assms obtain col where col: "column df column_name = Some col"
    by (rule find_Inr_column)
  from assms col obtain e where e: "end_index = e + 1"
    and valid: "valid_window df window_size start_index e"
    and sd: "std_dev = window_std col start_index e" and fin: "flt std_dev PInf"
    by (rule result_window)
  from valid have "start_index + 2 \<le> e" by (simp add: valid_window_def)
  moreover from fin obtain v where v: "std_dev = Fin v" by (auto simp: flt_PInf)
  moreover from v sd have "0 \<le> v" by (auto simp: window_std_def dest: std_Fin_nonneg)
  ultimately show ?thesis using e by simp
qed

theorem result_indices_and_std_witness:
  "find_min_std_window plateau_df ''v'' 2 2 = Inr (0, 3, Fin 0, 2) \<and>
   (0::nat) < 3 \<and> (3::nat) - 0 \<ge> 3 \<and> (\<exists>v. Fin 0 = Fin v \<and> 0 \<le> v)"
  using result_indices_and_std [OF plateau_run] plateau_run by simp

text \<open>
  C10: the missing cells of a window take no part in its standard deviation. Whenever the
  boundary lookup of a loop body succeeds, the body of either branch compares and records
  the sample standard deviation of the non-missing cells of the window alone; a window with
  fewer than two non-missing cells has the standard deviation NaN, which is never strictly
  below the running minimum, so the running best stays as it is. Hence a returned window
  holds at least two non-missing cells, and its standard deviation is the sample standard
  deviation of those cells.
\<close>

theorem missing_cells_are_skipped:
  "(\<forall>window_size b i end_idx.
      last_index_le (X_Value df) (X_Value df ! i + window_size) = Some end_idx \<longrightarrow>
      fixed_step df col window_size b i =
        Inr (if valid_window df window_size i end_idx \<and>
                flt (fval_of (sample_std (dropna (iloc col i (end_idx + 1))))) (min_std b)
             then \<lparr>min_std = fval_of (sample_std (dropna (iloc col i (end_idx + 1)))),
                   best_start_idx = i, best_end_idx = end_idx,
                   best_window_size = window_size\<rparr>
             else b) \<and>
      var_step df col window_size b i = fixed_step df col window_size b i \<and>
      (length (dropna (iloc col i (end_idx + 1))) < 2 \<longrightarrow>
         fixed_step df col window_size b i = Inr b \<and>
         var_step df col window_size b i = Inr b)) \<and>
   (\<forall>min_window_size max_window_size start_index end_index std_dev window_size.
      column df column_name = Some col \<and>
      find_min_std_window df column_name min_window_size max_window_size =
        Inr (start_index, end_index, std_dev, window_size) \<longrightarrow>
      2 \<le> length (dropna (iloc col start_index end_index)) \<and>
      std_dev = fval_of (sample_std (dropna (iloc col start_index end_index))))"
proof -
  have step: "fixed_step df col w b i =
        Inr (if valid_window df w i e \<and>
                flt (fval_of (sample_std (dropna (iloc col i (e + 1))))) (min_std b)
             then \<lparr>min_std = fval_of (sample_std (dropna (iloc col i (e + 1)))),
                   best_start_idx = i, best_end_idx = e, best_window_size = w\<rparr>
             else b) \<and>
      var_step df col w b i = fixed_step df col w b i \<and>
      (length (dropna (iloc col i (e + 1))) < 2 \<longrightarrow>
         fixed_step df col w b i = Inr b \<and> var_step df col w b i = Inr b)"
    if look: "last_index_le (X_Value df) (X_Value df ! i + w) = Some e" for w b i e
  proof -
    note rec = step_by_sample_std [OF look, of col b]
    have same: "var_step df col w b i = fixed_step df col w b i" by (simp add: var_step_eq)
    have "fixed_step df col w b i = Inr b" if "length (dropna (iloc col i (e + 1))) < 2"
      using rec fval_of_sample_std_NaN [OF that] by simp
    with rec same show ?thesis by simp
  qed
  have final: "2 \<le> length (dropna (iloc col s e1)) \<and>
      sd = fval_of (sample_std (dropna (iloc col s e1)))"
    if col: "column df column_name = Some col"
      and res: "find_min_std_window df column_name mn mx = Inr (s, e1, sd, L)"
    for mn mx s e1 sd L
  proof -
    from res col obtain e where e: "e1 = e + 1"
      and sd: "sd = window_std col s e" and fin: "flt sd PInf"
      by (rule result_window)
    from fin sd e have "\<exists>v. std (iloc col s e1) = Fin v"
      by (simp add: flt_PInf window_std_def)
    then have "2 \<le> length (dropna (iloc col s e1))" by (simp add: std_Fin_iff)
    moreover have "sd = fval_of (sample_std (dropna (iloc col s e1)))"
      using sd e by (simp add: window_std_def std_eq_sample_std)
    ultimately show ?thesis by simp
  qed
  from step final show ?thesis by blast
qed

theorem missing_cells_are_skipped_witness:
  "last_index_le (X_Value hole_df) (X_Value hole_df ! 0 + 2) = Some 2 \<and>
   valid_window hole_df 2 0 2 \<and>
   fixed_step hole_df [Some 1, None, Some 3] 2 init_best 0 =
     Inr \<lparr>min_std = fval_of (sample_std (dropna (iloc [Some 1, None, Some 3] 0 (2 + 1)))),
          best_start_idx = 0, best_end_idx = 2, best_window_size = 2\<rparr> \<and>
   column hole_df ''v'' = Some [Some 1, None, Some 3] \<and>
   find_min_std_window hole_df ''v'' 2 2 = Inr (0, 3, Fin (sqrt 2), 2) \<and>
   dropna (iloc [Some 1, None, Some 3] 0 3) = [1, 3] \<and>
   Fin (sqrt 2) = fval_of (sample_std (dropna (iloc [Some 1, None, Some 3] 0 3))) \<and>
   last_index_le (X_Value gap_df) (X_Value gap_df ! 0 + 2) = Some 2 \<and>
   length (dropna (iloc [Some 1, None, None] 0 (2 + 1))) < 2 \<and>
   fixed_step gap_df [Some 1, None, None] 2 init_best 0 = Inr init_best \<and>
   var_step gap_df [Some 1, None, None] 2 init_best 0 = Inr init_best"
proof -
  note hole = missing_cells_are_skipped [of hole_df "[Some 1, None, Some 3]" "''v''"]
  note gap = missing_cells_are_skipped [of gap_df "[Some 1, None, None]" "''v''"]
  have two: "flt (fval_of (sample_std (dropna (iloc [Some 1, None, Some 3] 0 (2 + 1)))))
               (min_std init_best)"
    using std_Fin_iff [of "iloc [Some 1, None, Some 3] 0 (2 + 1)"]
    by (auto simp: std_eq_sample_std init_best_def flt_PInf iloc_def)
  from hole hole_lookup hole_valid two
  have a: "fixed_step hole_df [Some 1, None, Some 3] 2 init_best 0 =
     Inr \<lparr>min_std = fval_of (sample_std (dropna (iloc [Some 1, None, Some 3] 0 (2 + 1)))),
          best_start_idx = 0, best_end_idx = 2, best_window_size = 2\<rparr>"
    by simp
  from hole hole_column hole_run
  have b: "Fin (sqrt 2) = fval_of (sample_std (dropna (iloc [Some 1, None, Some 3] 0 3)))"
    by blast
  from gap gap_lookup gap_count
  have c: "fixed_step gap_df [Some 1, None, None] 2 init_best 0 = Inr init_best \<and>
           var_step gap_df [Some 1, None, None] 2 init_best 0 = Inr init_best"
    by blast
  have d: "dropna (iloc [Some 1, None, Some 3] 0 3) = [1, 3]" by (simp add: iloc_def)
  show ?thesis
    by (intro conjI hole_lookup hole_valid a hole_column hole_run d b gap_lookup gap_count
        c [THEN conjunct1] c [THEN conjunct2])
qed



text \<open>
  C5: whenever a loop body of either branch records a window as the new best, the standard
  deviation it records is the sample standard deviation (denominator \<open>N - 1\<close>, NaN for
  fewer than two values) of the non-missing cells of the column over the closed index range
  from the start index to the end index; so is the standard deviation of a returned window,
  whose end index is returned exclusive.
\<close>

theorem retained_std_is_sample_std:
  assumes wf: "wf_df df" and col: "column df column_name = Some col"
  shows "(\<forall>window_size b i b'.
            (fixed_step df col window_size b i = Inr b' \<or>
             var_step df col window_size b i = Inr b') \<and> b' \<noteq> b \<longrightarrow>
            best_start_idx b' = i \<and>
            min_std b' = fval_of (sample_std (closed_range_values col i (best_end_idx b')))) \<and>
         (\<forall>min_window_size max_window_size start_index end_index std_dev window_size.
            find_min_std_window df column_name min_window_size max_window_size =
              Inr (start_index, end_index, std_dev, window_size) \<longrightarrow>
            std_dev = fval_of (sample_std (closed_range_values col start_index (end_index - 1))))"
proof -
  have len: "length col = len df" using wf col by (rule column_length)
  have step: "best_start_idx b' = i \<and>
      min_std b' = fval_of (sample_std (closed_range_values col i (best_end_idx b')))"
    if run: "fixed_step df col w b i = Inr b' \<or> var_step df col w b i = Inr b'"
      and new: "b' \<noteq> b" for w b i b'
  proof -
    from run have "fixed_step df col w b i = Inr b'" by (simp add: var_step_eq)
    then obtain e0 where
      b': "b' = (if valid_window df w i e0 \<and> flt (window_std col i e0) (min_std b)
               then \<lparr>min_std = window_std col i e0, best_start_idx = i,
                     best_end_idx = e0, best_window_size = w\<rparr>
               else b)"
      by (rule fixed_step_Inr)
    with new have valid: "valid_window df w i e0"
      and upd: "b' = \<lparr>min_std = window_std col i e0, best_start_idx = i,
                     best_end_idx = e0, best_window_size = w\<rparr>"
      by (auto split: if_splits)
    from valid have "e0 < length col" unfolding len by (rule valid_window_bound)
    then show ?thesis by (simp add: upd window_std_eq_sample_std)
  qed
  have final: "sd = fval_of (sample_std (closed_range_values col s (e1 - 1)))"
    if res: "find_min_std_window df column_name mn mx = Inr (s, e1, sd, L)" for mn mx s e1 sd L
  proof -
    from res col obtain e where e: "e1 = e + 1" and valid: "valid_window df L s e"
      and sd: "sd = window_std col s e"
      by (rule result_window)
    from valid have "e < length col" unfolding len by (rule valid_window_bound)
    then show ?thesis by (simp add: sd e window_std_eq_sample_std)
  qed
  from step final show ?thesis by blast
qed

theorem retained_std_is_sample_std_witness:
  "wf_df plateau_df \<and>
   column plateau_df ''v'' = Some [Some 10, Some 10, Some 10, Some 20, Some 20, Some 20] \<and>
   fixed_step plateau_df [Some 10, Some 10, Some 10, Some 20, Some 20, Some 20] 2 init_best 0 =
     Inr \<lparr>min_std = Fin 0, best_start_idx = 0, best_end_idx = 2, best_window_size = 2\<rparr> \<and>
   \<lparr>min_std = Fin 0, best_start_idx = 0, best_end_idx = 2, best_window_size = 2\<rparr> \<noteq> init_best \<and>
   find_min_std_window plateau_df ''v'' 2 2 = Inr (0, 3, Fin 0, 2) \<and>
   Fin 0 = fval_of (sample_std
     (closed_range_values [Some 10, Some 10, Some 10, Some 20, Some 20, Some 20] 0 2))"
proof -
  note inst = retained_std_is_sample_std [OF plateau_wf plateau_column]
  have ne: "\<lparr>min_std = Fin 0, best_start_idx = 0, best_end_idx = 2, best_window_size = 2\<rparr>
              \<noteq> init_best"
    by (simp add: init_best_def)
  from inst plateau_first_step ne
  have "min_std \<lparr>min_std = Fin 0, best_start_idx = 0, best_end_idx = 2, best_window_size = 2\<rparr>
          = fval_of (sample_std (closed_range_values
              [Some 10, Some 10, Some 10, Some 20, Some 20, Some 20] 0
              (best_end_idx \<lparr>min_std = Fin 0, best_start_idx = 0, best_end_idx = 2,
                 best_window_size = 2\<rparr>)))"
    by blast
  then show ?thesis using plateau_wf plateau_column plateau_first_step ne plateau_run
    by simp
qed

text \<open>
  C6 (as stated, refuted): on a channel with one recorded cell and two empty ones, the
  window from row 0 to row 2 passes the minimum-size check and the 1% check for a fixed size
  of 2 seconds, and the call still fails with NoValidWindow: its standard deviation is NaN.
\<close>

theorem no_valid_window_counterexample:
  "find_min_std_window gap_df ''v'' 2 2 = Inl NoValidWindow \<and>
   last_index_le (X_Value gap_df) (X_Value gap_df ! 0 + 2) = Some 2 \<and>
   \<not> int 2 - int 0 < 2 \<and>
   \<not> \<bar>X_Value gap_df ! 2 - X_Value gap_df ! 0 - 2\<bar> > 2 * (1 / 100)"
  by (simp add: find_min_std_window_def column_def gap_df_def fixed_scan_def len_def
      upt_rec fixed_step_def last_index_le_def iloc_def std_def nanvar_def init_best_def
      finish_def Let_def)

text \<open>
  C6 (amended): for a channel of the series and \<open>0 \<le> min_length \<le> max_length\<close>, the call
  fails with NoValidWindow exactly when no candidate window of the search passes the
  minimum-size check and the 1% check and holds at least two non-missing cells; in
  particular it fails so when every time span of the series is below 99% of \<open>min_length\<close>.
\<close>

theorem no_valid_window_iff:
  assumes col: "column df column_name = Some col"
    and nonneg: "0 \<le> min_window_size" and le: "min_window_size \<le> max_window_size"
  shows "(find_min_std_window df column_name min_window_size max_window_size = Inl NoValidWindow
          \<longleftrightarrow>
          \<not> (\<exists>w \<in> set (search_sizes min_window_size max_window_size). \<exists>i < len df. \<exists>e.
                valid_window df w i e \<and> 2 \<le> length (dropna (iloc col i (e + 1))))) \<and>
         ((\<forall>i < len df. \<forall>j < len df.
              X_Value df ! j - X_Value df ! i < min_window_size * (99 / 100)) \<longrightarrow>
          find_min_std_window df column_name min_window_size max_window_size = Inl NoValidWindow)"
proof -
  let ?ks = "List.product (search_sizes min_window_size max_window_size) [0..<len df]"
  let ?good = "\<exists>w \<in> set (search_sizes min_window_size max_window_size). \<exists>i < len df. \<exists>e.
                valid_window df w i e \<and> 2 \<le> length (dropna (iloc col i (e + 1)))"
  from scan_succeeds [OF nonneg] obtain b where b: "scan_keys df col ?ks init_best = Inr b"
    by blast
  have find: "find_min_std_window df column_name min_window_size max_window_size =
                (if min_std b = PInf then Inl NoValidWindow
                 else Inr (best_start_idx b, best_end_idx b + 1, min_std b, best_window_size b))"
    by (simp add: find_as_scan [OF col le] b finish_def)
  have iff: "min_std b = PInf \<longleftrightarrow> \<not> ?good"
  proof
    assume inf: "min_std b = PInf"
    from scan_keys_result [OF b] inf have nb: "no_better df col ?ks PInf"
      by (auto simp: init_best_def std_not_PInf window_std_def)
    show "\<not> ?good"
    proof
      assume ?good
      then obtain w i e where
        "w \<in> set (search_sizes min_window_size max_window_size)" "i < len df"
        "valid_window df w i e" "2 \<le> length (dropna (iloc col i (e + 1)))"
        by blast
      moreover from this nb have "\<not> flt (window_std col i e) PInf"
        by (auto simp: no_better_def)
      ultimately show False
        using std_Fin_iff [of "iloc col i (e + 1)"] by (simp add: flt_PInf window_std_def)
    qed
  next
    assume none: "\<not> ?good"
    from scan_keys_result [OF b] show "min_std b = PInf"
    proof
      assume "b = init_best \<and> no_better df col ?ks (min_std init_best)"
      then show ?thesis by (simp add: init_best_def)
    next
      assume "\<exists>pre w i e post.
            ?ks = pre @ (w, i) # post \<and> valid_window df w i e \<and>
            flt (window_std col i e) (min_std init_best) \<and>
            b = \<lparr>min_std = window_std col i e, best_start_idx = i,
                  best_end_idx = e, best_window_size = w\<rparr> \<and>
            all_worse df col pre (window_std col i e) \<and>
            no_better df col post (window_std col i e)"
      then obtain pre w i e post where split: "?ks = pre @ (w, i) # post"
        and valid: "valid_window df w i e"
        and less: "flt (window_std col i e) (min_std init_best)"
        by blast
      have "(w, i) \<in> set ?ks" unfolding split by simp
      then have "w \<in> set (search_sizes min_window_size max_window_size)" "i < len df"
        by auto
      moreover from less have "2 \<le> length (dropna (iloc col i (e + 1)))"
        using std_Fin_iff [of "iloc col i (e + 1)"]
        by (simp add: init_best_def flt_PInf window_std_def)
      ultimately have ?good using valid by blast
      with none show ?thesis by contradiction
    qed
  qed
  have part1: "find_min_std_window df column_name min_window_size max_window_size
                 = Inl NoValidWindow \<longleftrightarrow> \<not> ?good"
    using iff by (simp add: find)
  have part2: "find_min_std_window df column_name min_window_size max_window_size
                 = Inl NoValidWindow"
    if short: "\<forall>i < len df. \<forall>j < len df.
              X_Value df ! j - X_Value df ! i < min_window_size * (99 / 100)"
  proof -
    have "\<not> ?good"
    proof
      assume ?good
      then obtain w i e where w: "w \<in> set (search_sizes min_window_size max_window_size)"
        and i: "i < len df" and valid: "valid_window df w i e"
        by blast
      from valid have e: "e < len df" by (rule valid_window_bound)
      from w have "min_window_size \<le> w" by (rule search_sizes_ge)
      moreover from valid have "\<bar>X_Value df ! e - X_Value df ! i - w\<bar> \<le> w * (1 / 100)"
        by (simp add: valid_window_def)
      moreover from short i e have "X_Value df ! e - X_Value df ! i < min_window_size * (99 / 100)"
        by simp
      ultimately show False by argo
    qed
    then show ?thesis by (simp add: part1)
  qed
  from part1 part2 show ?thesis by blast
qed

theorem no_valid_window_iff_witness:
  "column plateau_df ''v'' = Some [Some 10, Some 10, Some 10, Some 20, Some 20, Some 20] \<and>
   (0::real) \<le> 2 \<and> (2::real) \<le> 2 \<and>
   find_min_std_window plateau_df ''v'' 2 2 \<noteq> Inl NoValidWindow \<and>
   (\<exists>w \<in> set (search_sizes 2 2). \<exists>i < len plateau_df. \<exists>e.
      valid_window plateau_df w i e \<and>
      2 \<le> length (dropna (iloc [Some 10, Some 10, Some 10, Some 20, Some 20, Some 20] i (e + 1))))"
proof -
  have run: "find_min_std_window plateau_df ''v'' 2 2 \<noteq> Inl NoValidWindow"
    by (simp add: plateau_run)
  with no_valid_window_iff [OF plateau_column, of 2 2]
  have "\<exists>w \<in> set (search_sizes 2 2). \<exists>i < len plateau_df. \<exists>e.
      valid_window plateau_df w i e \<and>
      2 \<le> length (dropna (iloc [Some 10, Some 10, Some 10, Some 20, Some 20, Some 20] i (e + 1)))"
    by simp
  with run plateau_column show ?thesis by simp
qed

text \<open>
  C1: the claim bounds the returned window size by \<open>max_length\<close>. With samples at 0, 1.5
  and 3 seconds and a search between 1 and 2.5 seconds the sizes scanned are 1, 2 and 3,
  and the call returns the window of size 3, above the maximum asked for.
\<close>

theorem window_size_above_max:
  "find_min_std_window
     \<lparr>X_Value = [0, 3 / 2, 3], channels = [''v'' \<mapsto> [Some 5, Some 5, Some 5]]\<rparr>
     ''v'' 1 (5 / 2) = Inr (0, 3, Fin 0, 3) \<and> \<not> (3::real) \<le> 5 / 2"
  using overshoot_run by (simp add: overshoot_df_def)

text \<open>
  C2 (as stated, refuted): between 1.5 and 3.5 seconds the sizes scanned are 1.5, 2.5 and
  3.5: they step by one second from the minimum and are not whole numbers of seconds.
\<close>

theorem integer_lengths_counterexample:
  "(3 / 2 :: real) < 7 / 2 \<and>
   set (candidate_lengths (3 / 2) (7 / 2)) = {3 / 2, 5 / 2, 7 / 2} \<and>
   (3 / 2 :: real) \<notin> \<int>"
proof -
  have "(3 / 2 :: real) \<notin> \<int>"
  proof
    assume "(3 / 2 :: real) \<in> \<int>"
    then obtain c :: int where "(3 / 2 :: real) = of_int c" by (auto elim!: Ints_cases)
    then have "(of_int 3 :: real) = of_int (2 * c)" by simp
    then have "(3 :: int) = 2 * c" by (simp only: of_int_eq_iff)
    then show False by presburger
  qed
  moreover have "set (candidate_lengths (3 / 2) (7 / 2)) = {3 / 2, 5 / 2, 7 / 2 :: real}"
    by (simp add: candidate_lengths_def arange_def upt_rec)
  ultimately show ?thesis by simp
qed

text \<open>
  C2 (amended): for \<open>min_length < max_length\<close> the variable branch scans the sizes of
  \<open>candidate_lengths\<close>: each of them is \<open>min_length\<close> plus a whole number of seconds, each
  such size up to \<open>max_length\<close> is among them, and when both bounds are whole numbers they
  are exactly the whole numbers from \<open>min_length\<close> to \<open>max_length\<close>.
\<close>

theorem candidate_lengths_step_from_min:
  assumes "column df column_name = Some col" and "min_window_size < max_window_size"
  shows "find_min_std_window df column_name min_window_size max_window_size =
           finish (var_scan df col (candidate_lengths min_window_size max_window_size) init_best) \<and>
         (\<forall>L \<in> set (candidate_lengths min_window_size max_window_size).
            \<exists>k::nat. L = min_window_size + real k) \<and>
         (\<forall>k::nat. min_window_size + real k \<le> max_window_size \<longrightarrow>
            min_window_size + real k \<in> set (candidate_lengths min_window_size max_window_size)) \<and>
         (min_window_size \<in> \<int> \<and> max_window_size \<in> \<int> \<longrightarrow>
            set (candidate_lengths min_window_size max_window_size) =
              {L. L \<in> \<int> \<and> min_window_size \<le> L \<and> L \<le> max_window_size})"
proof -
  have "find_min_std_window df column_name min_window_size max_window_size =
           finish (var_scan df col (candidate_lengths min_window_size max_window_size) init_best)"
    using assms by (simp add: find_min_std_window_def)
  moreover have "\<forall>L \<in> set (candidate_lengths min_window_size max_window_size).
            \<exists>k::nat. L = min_window_size + real k"
    by (auto simp: set_candidate_lengths)
  moreover have "\<forall>k::nat. min_window_size + real k \<le> max_window_size \<longrightarrow>
            min_window_size + real k \<in> set (candidate_lengths min_window_size max_window_size)"
    by (auto simp: set_candidate_lengths)
  ultimately show ?thesis using int_candidate_lengths by blast
qed

theorem candidate_lengths_step_from_min_witness:
  "column plateau_df ''v'' = Some [Some 10, Some 10, Some 10, Some 20, Some 20, Some 20] \<and>
   (1::real) < 3 \<and> (1::real) \<in> \<int> \<and> (3::real) \<in> \<int> \<and>
   (1::real) + real (2::nat) \<le> 3 \<and>
   (1::real) + real (2::nat) \<in> set (candidate_lengths 1 3) \<and>
   set (candidate_lengths 1 3) = {L. L \<in> \<int> \<and> 1 \<le> L \<and> L \<le> 3}"
proof -
  have lt: "(1::real) < 3" by simp
  note inst = candidate_lengths_step_from_min [OF plateau_column lt]
  from inst have "(1::real) + real (2::nat) \<in> set (candidate_lengths 1 3)" by simp
  moreover from inst have "set (candidate_lengths 1 3) = {L. L \<in> \<int> \<and> 1 \<le> L \<and> L \<le> 3}"
    by simp
  ultimately show ?thesis using plateau_column by simp
qed

end
